theory Spec2Isabelle
  imports Complex_Main "HOL-Library.AList"
begin

section \<open>Values, messages and what the program prints\<close>

text \<open>
  The program is \<^verbatim>\<open>realtimetrafficanalysis.py\<close>. A value that travels through the queue
  is what \<^verbatim>\<open>json.loads\<close> returns: \<^verbatim>\<open>None\<close>, a boolean, a number, NaN (pandas writes an
  empty CSV cell as NaN and \<^verbatim>\<open>json.dumps\<close> emits it), a string, a list or a dict. A dict
  is kept as its items in insertion order. A finite number is a rational: the program
  only compares numbers (\<^verbatim>\<open>== -1\<close>, \<^verbatim>\<open>< 20\<close>) and never computes with them.
\<close>

datatype json =
    JNull
  | JBool bool
  | JNum rat
  | JNaN
  | JStr string
  | JArr "json list"
  | JObj "(string \<times> json) list"

type_synonym row = "(string \<times> json) list"

text \<open>
  A message of the topic is known by what the consumer's \<^verbatim>\<open>value_deserializer\<close>
  (\<^verbatim>\<open>json.loads(m.decode('utf-8'))\<close>) makes of its bytes: it raises, or it returns a value.
\<close>

datatype message = Malformed | Payload json

datatype error =
    FetchFailed
  | BrokerUnreachable
  | SerializeFailed
  | ConnectFailed
  | CreateFailed
  | DeserializeFailed
  | NotADict
  | InsertFailed
  | ReadCsvFailed
  | ToSqlFailed

text \<open>The lines the program prints; the two failure lines carry the exception.\<close>

datatype line =
    TableEnsured
  | BatchLoaded
  | SentToKafka
  | FailedFetchSend error
  | Processed200
  | KafkaError error

text \<open>
  The ways \<^verbatim>\<open>consume_realtime_data\<close> leaves its \<^verbatim>\<open>try\<close> block: the \<^verbatim>\<open>break\<close> at 200
  records, the end of the iteration (no message within \<^verbatim>\<open>consumer_timeout_ms\<close>), or an
  exception caught by \<^verbatim>\<open>except Exception\<close>.
\<close>

datatype outcome = QuotaReached | IdleTimeout | Error error

section \<open>The store and the environment\<close>

record table =
  columns :: "string list"
  trows :: "json list list"

text \<open>
  The database: its tables by name, the number of \<^verbatim>\<open>psycopg2.connect\<close> calls made so far
  and the number of connections opened and not closed by a \<^verbatim>\<open>close()\<close> call. Only calls
  written in the source change \<open>open_conns\<close>; what the interpreter's garbage collector
  does to an unreachable connection object is not part of the model.
\<close>

record db =
  tables :: "string \<Rightarrow> table option"
  attempts :: nat
  open_conns :: nat

text \<open>
  Everything the program does not decide itself:
  \<^item> \<open>connect_ok n\<close>: the \<open>n\<close>-th call of \<^verbatim>\<open>psycopg2.connect\<close> succeeds;
  \<^item> \<open>create_ok\<close>: \<^verbatim>\<open>CREATE TABLE IF NOT EXISTS\<close> and its commit succeed;
  \<^item> \<open>broker_ok\<close>: the Kafka client can be constructed;
  \<^item> \<open>pg_insert vs\<close>: the row PostgreSQL stores for the parameters \<open>vs\<close> of the INSERT,
    coerced to the column types, or \<open>None\<close> when the INSERT or its commit raises;
  \<^item> \<open>serializes r\<close>: \<^verbatim>\<open>json.dumps\<close> accepts the dict of a row;
  \<^item> \<open>read_csv p\<close>: the frame \<^verbatim>\<open>pd.read_csv\<close> parses from the file at \<open>p\<close>, or \<open>None\<close> when
    it raises;
  \<^item> \<open>to_sql_ok t\<close>: \<^verbatim>\<open>to_sql\<close> on table \<open>t\<close> succeeds.
\<close>

record env =
  connect_ok :: "nat \<Rightarrow> bool"
  create_ok :: bool
  broker_ok :: bool
  pg_insert :: "json list \<Rightarrow> json list option"
  serializes :: "row \<Rightarrow> bool"
  read_csv :: "string \<Rightarrow> table option"
  to_sql_ok :: "string \<Rightarrow> bool"

text \<open>
  One run of the consumer: how it left the \<^verbatim>\<open>try\<close> block, \<^verbatim>\<open>record_count\<close> at that
  moment, the messages not taken from the iterator, the database and the lines printed.
  The Python function itself returns \<^verbatim>\<open>None\<close> on every path.
\<close>

record run =
  outcome :: outcome
  record_count :: nat
  rest :: "message list"
  store :: db
  printed :: "line list"

text \<open>
  A row of the frame the dashboard works on: the cells read from the table, the numeric
  \<^verbatim>\<open>current_speed\<close> column and the \<^verbatim>\<open>is_congested\<close> column.
\<close>

record frame_row =
  cells :: "json list"
  current_speed :: "rat option"
  is_congested :: bool

definition realtime_table :: string where
  "realtime_table = ''realtime_traffic_data''"

text \<open>The field list of \<^verbatim>\<open>consume_realtime_data\<close>, also the columns of the table.\<close>

definition fields :: "string list" where
  "fields =
    [''segmentid'', ''street'', ''direction'', ''from_street'', ''to_street'',
     ''length'', ''street_heading'', ''comments'', ''start_longitude'',
     ''start_latitude'', ''end_longitude'', ''end_latitude'',
     ''current_speed'', ''last_updated'']"

definition rt_rows :: "db \<Rightarrow> json list list" where
  "rt_rows s = (case tables s realtime_table of None \<Rightarrow> [] | Some t \<Rightarrow> trows t)"

text \<open>\<^verbatim>\<open>psycopg2.connect(DATABASE_URL)\<close>: the flag tells whether it returned.\<close>

definition connect :: "env \<Rightarrow> db \<Rightarrow> bool \<times> db" where
  "connect e s =
    (if connect_ok e (attempts s)
     then (True, s\<lparr>attempts := Suc (attempts s), open_conns := Suc (open_conns s)\<rparr>)
     else (False, s\<lparr>attempts := Suc (attempts s)\<rparr>))"

definition close_conn :: "db \<Rightarrow> db" where
  "close_conn s = s\<lparr>open_conns := open_conns s - 1\<rparr>"

text \<open>
  \<^verbatim>\<open>ensure_realtime_table_exists\<close>: connect, create the table when it is absent, commit,
  close, print. It has no \<^verbatim>\<open>try\<close>: an exception leaves it at once, so a failing
  \<^verbatim>\<open>execute\<close> skips \<^verbatim>\<open>conn.close()\<close>.
\<close>

definition ensure_realtime_table_exists :: "env \<Rightarrow> db \<Rightarrow> error option \<times> db \<times> line list" where
  "ensure_realtime_table_exists e s =
    (case connect e s of
       (False, s1) \<Rightarrow> (Some ConnectFailed, s1, [])
     | (True, s1) \<Rightarrow>
         if create_ok e
         then (None,
               close_conn
                 (case tables s1 realtime_table of
                    None \<Rightarrow> s1\<lparr>tables := (tables s1)(realtime_table \<mapsto> \<lparr>columns = fields, trows = []\<rparr>)\<rparr>
                  | Some t \<Rightarrow> s1),
               [TableEnsured])
         else (Some CreateFailed, s1, []))"

section \<open>Batch load\<close>

definition files :: "(string \<times> string) list" where
  "files =
    [(''historical_traffic'', ''data/historical_traffic.csv''),
     (''red_light_violations'', ''data/red_light_violations.csv''),
     (''speed_camera_violations'', ''data/speed_camera_violations.csv''),
     (''traffic_crashes'', ''data/traffic_crashes.csv'')]"

text \<open>
  The loop of \<^verbatim>\<open>load_csv_to_postgres\<close> over \<^verbatim>\<open>files.items()\<close>: read the file, then
  \<^verbatim>\<open>to_sql(table, engine, if_exists="replace")\<close>, which drops the table and creates it
  again from the frame. Either call may raise, which ends the loop.
\<close>

fun load_files :: "env \<Rightarrow> (string \<times> string) list \<Rightarrow> db \<Rightarrow> error option \<times> db" where
  "load_files e [] s = (None, s)"
| "load_files e ((t, p) # fs) s =
    (case read_csv e p of
       None \<Rightarrow> (Some ReadCsvFailed, s)
     | Some df \<Rightarrow>
         if to_sql_ok e t
         then load_files e fs (s\<lparr>tables := (tables s)(t \<mapsto> df)\<rparr>)
         else (Some ToSqlFailed, s))"

definition load_csv_to_postgres :: "env \<Rightarrow> db \<Rightarrow> error option \<times> db \<times> line list" where
  "load_csv_to_postgres e s =
    (case load_files e files s of
       (None, s') \<Rightarrow> (None, s', [BatchLoaded])
     | (Some err, s') \<Rightarrow> (Some err, s', []))"

text \<open>
  The first two statements of \<^verbatim>\<open>main\<close>, which run before the consumer thread is
  started; \<^verbatim>\<open>main\<close> catches nothing, so an error ends it.
\<close>

definition main_setup :: "env \<Rightarrow> db \<Rightarrow> error option \<times> db \<times> line list" where
  "main_setup e s =
    (case ensure_realtime_table_exists e s of
       (Some err, s1, out) \<Rightarrow> (Some err, s1, out)
     | (None, s1, out) \<Rightarrow>
         (case load_csv_to_postgres e s1 of (r, s2, out2) \<Rightarrow> (r, s2, out @ out2)))"

section \<open>Producer\<close>

text \<open>
  The loop of \<^verbatim>\<open>produce_realtime_data\<close>: \<^verbatim>\<open>producer.send('realtime_traffic', row.to_dict())\<close>
  for each row. The serializer runs inside \<^verbatim>\<open>send\<close> and may raise. A row that was handed
  to the producer is appended to the topic; decoding its bytes gives the dict back.
\<close>

fun send_rows :: "env \<Rightarrow> row list \<Rightarrow> message list \<Rightarrow> error option \<times> message list" where
  "send_rows e [] topic = (None, topic)"
| "send_rows e (r # rs) topic =
    (if serializes e r
     then send_rows e rs (topic @ [Payload (JObj r)])
     else (Some SerializeFailed, topic))"

text \<open>
  \<^verbatim>\<open>produce_realtime_data\<close>, given what the download and \<^verbatim>\<open>pd.read_csv\<close> produced (an
  exception or the rows). The function returns nothing; the result here is the topic
  afterwards and the lines printed.
\<close>

definition produce_realtime_data ::
    "env \<Rightarrow> error + row list \<Rightarrow> message list \<Rightarrow> message list \<times> line list" where
  "produce_realtime_data e fetched topic =
    (case fetched of
       Inl err \<Rightarrow> (topic, [FailedFetchSend err])
     | Inr df \<Rightarrow>
         if broker_ok e
         then (case send_rows e df topic of
                 (None, topic') \<Rightarrow> (topic', [SentToKafka])
               | (Some err, topic') \<Rightarrow> (topic', [FailedFetchSend err]))
         else (topic, [FailedFetchSend BrokerUnreachable]))"

section \<open>Consumer\<close>

text \<open>
  \<^verbatim>\<open>str.lower\<close> on the letters A to Z. Python also lowers cased letters outside ASCII;
  the consumer only ever compares a lowered key with one of the fourteen field names,
  and no character outside A to Z lowers to a character of a field name, so the two
  agree wherever the program looks.
\<close>

definition lower_char :: "char \<Rightarrow> char" where
  "lower_char c =
    (let n = (of_char c :: nat) in if 65 \<le> n \<and> n \<le> 90 then char_of (n + 32) else c)"

definition lower :: "string \<Rightarrow> string" where
  "lower k = map lower_char k"

text \<open>
  \<^verbatim>\<open>d = {k.lower(): v for k, v in msg.value.items()}\<close>: the items are stored one after
  the other, a later item replacing an earlier one with the same lowered key.
\<close>

definition lower_keys :: "row \<Rightarrow> row" where
  "lower_keys its = fold (\<lambda>(k, v) d. AList.update (lower k) v d) its []"

text \<open>\<^verbatim>\<open>d.get(k, None)\<close>\<close>

definition dict_get :: "row \<Rightarrow> string \<Rightarrow> json" where
  "dict_get d k = (case map_of d k of None \<Rightarrow> JNull | Some v \<Rightarrow> v)"

text \<open>\<^verbatim>\<open>values = tuple(d.get(k, None) for k in fields)\<close>\<close>

definition values_of :: "row \<Rightarrow> json list" where
  "values_of its = map (dict_get (lower_keys its)) fields"

text \<open>
  The record the INSERT statement writes: column \<open>fields ! i\<close> receives \<open>values ! i\<close>.
\<close>

definition normalize :: "row \<Rightarrow> row" where
  "normalize its = zip fields (values_of its)"

text \<open>\<^verbatim>\<open>cur.execute(INSERT ...)\<close> followed by \<^verbatim>\<open>conn.commit()\<close>.\<close>

definition insert_row :: "env \<Rightarrow> json list \<Rightarrow> db \<Rightarrow> db option" where
  "insert_row e vs s =
    (case tables s realtime_table of
       None \<Rightarrow> None
     | Some t \<Rightarrow>
         (case pg_insert e vs of
            None \<Rightarrow> None
          | Some r \<Rightarrow> Some (s\<lparr>tables := (tables s)(realtime_table \<mapsto> t\<lparr>trows := trows t @ [r]\<rparr>)\<rparr>)))"

text \<open>
  \<^verbatim>\<open>for msg in consumer\<close>. The list holds the messages that arrive less than
  \<^verbatim>\<open>consumer_timeout_ms\<close> apart; at its end the iterator stops. Each message is
  deserialized when the iterator delivers it, and an exception of the deserializer, of
  \<^verbatim>\<open>msg.value.items()\<close> (the value is not a dict) or of the INSERT leaves the loop.
\<close>

fun drain :: "env \<Rightarrow> message list \<Rightarrow> nat \<Rightarrow> db \<Rightarrow> run" where
  "drain e [] n s =
    \<lparr>outcome = IdleTimeout, record_count = n, rest = [], store = s, printed = []\<rparr>"
| "drain e (Malformed # q) n s =
    \<lparr>outcome = Error DeserializeFailed, record_count = n, rest = q, store = s, printed = []\<rparr>"
| "drain e (Payload (JObj its) # q) n s =
    (case insert_row e (values_of its) s of
       None \<Rightarrow>
         \<lparr>outcome = Error InsertFailed, record_count = n, rest = q, store = s, printed = []\<rparr>
     | Some s' \<Rightarrow>
         if Suc n \<ge> 200
         then \<lparr>outcome = QuotaReached, record_count = Suc n, rest = q, store = s',
               printed = [Processed200]\<rparr>
         else drain e q (Suc n) s')"
| "drain e (Payload v # q) n s =
    \<lparr>outcome = Error NotADict, record_count = n, rest = q, store = s, printed = []\<rparr>"

text \<open>\<^verbatim>\<open>except Exception as e: print(f"... Kafka Error: {e}")\<close>\<close>

definition except_handler :: "run \<Rightarrow> run" where
  "except_handler r =
    (case outcome r of
       Error err \<Rightarrow> r\<lparr>printed := printed r @ [KafkaError err]\<rparr>
     | _ \<Rightarrow> r)"

definition consume_realtime_data :: "env \<Rightarrow> message list \<Rightarrow> db \<Rightarrow> run" where
  "consume_realtime_data e q s =
    except_handler
      (case ensure_realtime_table_exists e s of
         (Some err, s1, out) \<Rightarrow>
           \<lparr>outcome = Error err, record_count = 0, rest = q, store = s1, printed = out\<rparr>
       | (None, s1, out) \<Rightarrow>
           if broker_ok e
           then (case connect e s1 of
                   (False, s2) \<Rightarrow>
                     \<lparr>outcome = Error ConnectFailed, record_count = 0, rest = q, store = s2,
                      printed = out\<rparr>
                 | (True, s2) \<Rightarrow>
                     (let r = drain e q 0 s2 in r\<lparr>printed := out @ printed r\<rparr>))
           else \<lparr>outcome = Error BrokerUnreachable, record_count = 0, rest = q, store = s1,
                 printed = out\<rparr>)"

section \<open>Dashboard: the frame built from the realtime table\<close>

text \<open>
  \<^verbatim>\<open>pd.read_sql("SELECT * FROM realtime_traffic_data", engine)\<close> and the column
  \<^verbatim>\<open>df['current_speed']\<close>. The column is FLOAT, so a cell read back is a number or is
  missing (NULL and NaN are both missing values for pandas), and
  \<^verbatim>\<open>pd.to_numeric(..., errors='coerce')\<close> leaves it as it is.
\<close>

definition to_numeric :: "json \<Rightarrow> rat option" where
  "to_numeric c = (case c of JNum x \<Rightarrow> Some x | _ \<Rightarrow> None)"

definition read_sql :: "db \<Rightarrow> frame_row list option" where
  "read_sql s =
    (case tables s realtime_table of
       None \<Rightarrow> None
     | Some t \<Rightarrow>
         if ''current_speed'' \<in> set (columns t)
         then Some (map (\<lambda>r. \<lparr>cells = r,
                               current_speed = to_numeric (dict_get (zip (columns t) r) ''current_speed''),
                               is_congested = False\<rparr>) (trows t))
         else None)"

text \<open>\<^verbatim>\<open>df['current_speed'].replace(-1, pd.NA)\<close>\<close>

definition replace_sentinel :: "frame_row \<Rightarrow> frame_row" where
  "replace_sentinel r = (if current_speed r = Some (- 1) then r\<lparr>current_speed := None\<rparr> else r)"

text \<open>\<^verbatim>\<open>df.dropna(subset=['current_speed'], inplace=True)\<close>\<close>

definition dropna :: "frame_row list \<Rightarrow> frame_row list" where
  "dropna df = filter (\<lambda>r. current_speed r \<noteq> None) df"

text \<open>\<^verbatim>\<open>df['is_congested'] = df['current_speed'] < 20\<close>\<close>

definition set_congested :: "frame_row \<Rightarrow> frame_row" where
  "set_congested r =
    r\<lparr>is_congested := (case current_speed r of None \<Rightarrow> False | Some x \<Rightarrow> x < 20)\<rparr>"

text \<open>
  The frame every tab of \<^verbatim>\<open>run_dashboard\<close> reads (lines 164 to 168); \<open>None\<close> when the
  query or the column access raises.
\<close>

definition run_dashboard :: "db \<Rightarrow> frame_row list option" where
  "run_dashboard s =
    (case read_sql s of
       None \<Rightarrow> None
     | Some df \<Rightarrow> Some (map set_congested (dropna (map replace_sentinel df))))"

section \<open>What a run is expected to store\<close>

text \<open>
  The row the database stores when the consumer processes a message without an
  exception: the message carries a dict and the INSERT of its values succeeds.
\<close>

fun stored :: "env \<Rightarrow> message \<Rightarrow> json list option" where
  "stored e (Payload (JObj its)) = pg_insert e (values_of its)"
| "stored e m = None"

definition insertable :: "env \<Rightarrow> message \<Rightarrow> bool" where
  "insertable e m = (stored e m \<noteq> None)"

text \<open>
  The storage and the broker answer during one run of the consumer that starts in
  database state \<open>s\<close>: both \<^verbatim>\<open>psycopg2.connect\<close> calls, the table creation and the
  construction of the Kafka client succeed.
\<close>

definition reachable :: "env \<Rightarrow> db \<Rightarrow> bool" where
  "reachable e s =
    (connect_ok e (attempts s) \<and> connect_ok e (Suc (attempts s)) \<and> create_ok e \<and> broker_ok e)"

definition load_ok :: "env \<Rightarrow> string \<times> string \<Rightarrow> bool" where
  "load_ok e f = (read_csv e (snd f) \<noteq> None \<and> to_sql_ok e (fst f))"

section \<open>Fixed inputs used to run the definitions\<close>

definition empty_db :: db where
  "empty_db = \<lparr>tables = (\<lambda>n. None), attempts = 0, open_conns = 0\<rparr>"

definition healthy :: env where
  "healthy =
    \<lparr>connect_ok = (\<lambda>n. True), create_ok = True, broker_ok = True,
     pg_insert = (\<lambda>vs. Some vs), serializes = (\<lambda>r. True),
     read_csv = (\<lambda>p. Some \<lparr>columns = [p], trows = []\<rparr>), to_sql_ok = (\<lambda>t. True)\<rparr>"

text \<open>A row as the source delivers it and a row whose value nothing downstream accepts.\<close>

definition raw_row :: row where
  "raw_row = [(''SEGMENTID'', JStr ''123''), (''_traffic'', JNum 15)]"

definition good_row :: row where
  "good_row = [(''segmentid'', JStr ''123''), (''current_speed'', JNum 15)]"

definition bad_row :: row where
  "bad_row = [(''segmentid'', JArr [])]"

text \<open>
  An environment like \<open>healthy\<close>, except that a row holding a list is refused both by
  the serializer and by the database.
\<close>

definition strict :: env where
  "strict =
    healthy\<lparr>pg_insert := (\<lambda>vs. if JArr [] \<in> set vs then None else Some vs),
            serializes := (\<lambda>r. JArr [] \<notin> snd ` set r)\<rparr>"

text \<open>Two hundred and one messages, every one a dict the database accepts.\<close>

definition full_queue :: "message list" where
  "full_queue = replicate 200 (Payload (JObj good_row)) @ [Payload (JObj raw_row)]"

text \<open>
  Two hundred and two messages, the second of which cannot be deserialized; the other
  two hundred and one are dicts the database accepts.
\<close>

definition broken_queue :: "message list" where
  "broken_queue =
    Payload (JObj good_row) # Malformed # replicate 200 (Payload (JObj good_row))"

text \<open>Three readings of segment 123 with the speeds 15, -1 and 25.\<close>

definition scenario_rows :: "row list" where
  "scenario_rows =
    [[(''segmentid'', JStr ''123''), (''current_speed'', JNum 15)],
     [(''segmentid'', JStr ''123''), (''current_speed'', JNum (- 1))],
     [(''segmentid'', JStr ''123''), (''current_speed'', JNum 25)]]"

definition scenario_db :: db where
  "scenario_db =
    store (consume_realtime_data healthy
             (fst (produce_realtime_data healthy (Inr scenario_rows) [])) empty_db)"

text \<open>
  A database that already holds a historical table and one realtime row, before the
  batch load runs.
\<close>

definition old_db :: db where
  "old_db =
    \<lparr>tables = (\<lambda>n. if n = ''historical_traffic'' then Some \<lparr>columns = [''street''], trows = [[JStr ''Old'']]\<rparr>
                    else if n = realtime_table then Some \<lparr>columns = fields, trows = [values_of good_row]\<rparr>
                    else None),
     attempts = 0, open_conns = 0\<rparr>"

text \<open>A realtime table with the three speeds and the frames the dashboard derives.\<close>

definition sentinel_db :: db where
  "sentinel_db =
    \<lparr>tables = (\<lambda>n. if n = realtime_table
                    then Some \<lparr>columns = [''current_speed''],
                               trows = [[JNum 15], [JNum (- 1)], [JNum 25]]\<rparr>
                    else None),
     attempts = 0, open_conns = 0\<rparr>"

definition sentinel_raw :: "frame_row list" where
  "sentinel_raw =
    [\<lparr>cells = [JNum 15], current_speed = Some 15, is_congested = False\<rparr>,
     \<lparr>cells = [JNum (- 1)], current_speed = Some (- 1), is_congested = False\<rparr>,
     \<lparr>cells = [JNum 25], current_speed = Some 25, is_congested = False\<rparr>]"

definition sentinel_frame :: "frame_row list" where
  "sentinel_frame =
    [\<lparr>cells = [JNum 15], current_speed = Some 15, is_congested = True\<rparr>,
     \<lparr>cells = [JNum 25], current_speed = Some 25, is_congested = False\<rparr>]"

section \<open>Normalization\<close>

lemma fields_lower: "map lower fields = fields"
  by (simp add: fields_def lower_def lower_char_def)

lemma fields_distinct: "distinct fields"
  by (simp add: fields_def)

lemma fields_length: "length fields = 14"
  by (simp add: fields_def)

text \<open>
  Building the dict item by item and looking a key up afterwards gives the value of the
  last item with that key.
\<close>

lemma map_of_fold_update:
  "map_of (fold (\<lambda>(k, v) d. AList.update (f k) v d) its acc) x =
     (case map_of (rev (map (\<lambda>(k, v). (f k, v)) its)) x of
        None \<Rightarrow> map_of acc x
      | Some v \<Rightarrow> Some v)"
proof (induction its arbitrary: acc)
  case Nil
  show ?case by simp
next
  case (Cons p its)
  obtain k v where p: "p = (k, v)" by (cases p)
  show ?case
    by (simp add: p Cons.IH update_conv' map_add_def split: option.splits)
qed

lemma map_of_lower_keys:
  "map_of (lower_keys its) x = map_of (rev (map (\<lambda>(k, v). (lower k, v)) its)) x"
  by (simp add: lower_keys_def map_of_fold_update split: option.splits)

lemma dict_get_absent:
  "x \<notin> lower ` fst ` set its \<Longrightarrow> dict_get (lower_keys its) x = JNull"
proof -
  assume a: "x \<notin> lower ` fst ` set its"
  have "x \<notin> fst ` set (rev (map (\<lambda>(k, v). (lower k, v)) its))"
    using a by (auto simp: image_iff split: prod.splits)
  then have "map_of (rev (map (\<lambda>(k, v). (lower k, v)) its)) x = None"
    by (simp add: map_of_eq_None_iff)
  then show ?thesis by (simp add: dict_get_def map_of_lower_keys)
qed

lemma map_of_rev_filter:
  "(\<And>p. p \<in> set its \<Longrightarrow> \<not> P p \<Longrightarrow> fst (g p) \<noteq> x) \<Longrightarrow>
     map_of (rev (map g (filter P its))) x = map_of (rev (map g its)) x"
proof (induction its)
  case Nil
  show ?case by simp
next
  case (Cons p its)
  have ih: "map_of (rev (map g (filter P its))) x = map_of (rev (map g its)) x"
    using Cons by simp
  show ?case
  proof (cases "P p")
    case True
    then show ?thesis by (simp add: ih map_add_def)
  next
    case False
    then have "fst (g p) \<noteq> x" using Cons.prems by simp
    then show ?thesis using False
      by (cases "g p") (simp add: ih map_add_def split: option.splits)
  qed
qed

lemma values_of_filter:
  "values_of (filter (\<lambda>(k, v). lower k \<in> set fields) its) = values_of its"
proof -
  have "dict_get (lower_keys (filter (\<lambda>(k, v). lower k \<in> set fields) its)) x
        = dict_get (lower_keys its) x" if "x \<in> set fields" for x
  proof -
    have "map_of (rev (map (\<lambda>(k, v). (lower k, v)) (filter (\<lambda>(k, v). lower k \<in> set fields) its))) x
          = map_of (rev (map (\<lambda>(k, v). (lower k, v)) its)) x"
      by (rule map_of_rev_filter) (use that in \<open>auto split: prod.splits\<close>)
    then show ?thesis by (simp add: dict_get_def map_of_lower_keys)
  qed
  then show ?thesis by (simp add: values_of_def)
qed

lemma length_values_of: "length (values_of its) = length fields"
  by (simp add: values_of_def)

lemma map_fst_normalize: "map fst (normalize its) = fields"
  by (simp add: normalize_def length_values_of)

lemma map_snd_normalize: "map snd (normalize its) = values_of its"
  by (simp add: normalize_def length_values_of)

lemma map_of_normalize:
  "x \<in> set fields \<Longrightarrow> map_of (normalize its) x = Some (dict_get (lower_keys its) x)"
  by (simp add: normalize_def values_of_def map_of_zip_map)

lemma lookup_zip_self:
  "distinct ks \<Longrightarrow> length ks = length vs \<Longrightarrow>
     map (\<lambda>k. case map_of (zip ks vs) k of None \<Rightarrow> d | Some v \<Rightarrow> v) ks = vs"
proof (induction ks vs rule: list_induct2')
  case (4 k ks v vs)
  then have ih: "map (\<lambda>k. case map_of (zip ks vs) k of None \<Rightarrow> d | Some v \<Rightarrow> v) ks = vs"
    by simp
  have "map (\<lambda>x. case (if x = k then Some v else map_of (zip ks vs) x) of None \<Rightarrow> d | Some v \<Rightarrow> v) ks
        = map (\<lambda>k. case map_of (zip ks vs) k of None \<Rightarrow> d | Some v \<Rightarrow> v) ks"
    using 4(2) by (intro map_cong) auto
  then show ?case using ih by simp
qed simp_all

text \<open>A record that already has the fourteen fields, in order, keeps its values.\<close>

lemma values_of_zip_fields:
  assumes "length vs = length fields"
  shows "values_of (zip fields vs) = vs"
proof -
  have m: "map (\<lambda>(k, v). (lower k, v)) (zip fields vs) = zip fields vs"
  proof -
    have "map (\<lambda>(k, v). (lower k, v)) (zip fields vs) = zip (map lower fields) vs"
      by (simp add: zip_map1 case_prod_unfold)
    then show ?thesis by (simp add: fields_lower)
  qed
  have d: "distinct (map fst (zip fields vs))"
    using assms fields_distinct by simp
  have "map_of (lower_keys (zip fields vs)) x = map_of (zip fields vs) x" for x
    by (simp only: map_of_lower_keys m) (metis d distinct_rev map_of_inject_set rev_map set_rev)
  then have "values_of (zip fields vs)
      = map (\<lambda>k. case map_of (zip fields vs) k of None \<Rightarrow> JNull | Some v \<Rightarrow> v) fields"
    by (simp add: values_of_def dict_get_def)
  also have "\<dots> = vs"
    using fields_distinct assms by (simp add: lookup_zip_self)
  finally show ?thesis .
qed

text \<open>
  Claim C4 (schema completeness). For every raw row \<open>x\<close>, whatever its keys and their
  casing, the record the consumer writes has exactly the fourteen fields of the schema
  in their fixed order; a field \<open>k\<close> that no key of \<open>x\<close> lowers to holds null; and the
  items of \<open>x\<close> whose lowered key is not a field have no effect on the record, they are
  dropped.
\<close>

theorem schema_completeness:
  "map fst (normalize x) = fields \<and> length (normalize x) = 14 \<and> distinct fields
   \<and> (k \<in> set fields \<and> k \<notin> lower ` fst ` set x \<longrightarrow> map_of (normalize x) k = Some JNull)
   \<and> normalize (filter (\<lambda>(k, v). lower k \<in> set fields) x) = normalize x"
proof -
  have "length (normalize x) = 14"
    by (simp add: normalize_def length_values_of fields_length)
  moreover have "map_of (normalize x) k = Some JNull"
    if "k \<in> set fields" "k \<notin> lower ` fst ` set x"
    using that by (simp add: map_of_normalize dict_get_absent)
  moreover have "normalize (filter (\<lambda>(k, v). lower k \<in> set fields) x) = normalize x"
    by (simp add: normalize_def values_of_filter)
  ultimately show ?thesis
    using map_fst_normalize fields_distinct by blast
qed

theorem schema_completeness_witness:
  "map fst (normalize raw_row) = fields
   \<and> ''length'' \<in> set fields
   \<and> ''length'' \<notin> lower ` fst ` set raw_row
   \<and> map_of (normalize raw_row) ''length'' = Some JNull
   \<and> map_of (normalize raw_row) ''segmentid'' = Some (JStr ''123'')
   \<and> normalize (filter (\<lambda>(k, v). lower k \<in> set fields) raw_row) = normalize raw_row"
proof -
  have a: "''length'' \<in> set fields" by (simp add: fields_def)
  have b: "''length'' \<notin> lower ` fst ` set raw_row"
    by code_simp
  have c: "map_of (normalize raw_row) ''segmentid'' = Some (JStr ''123'')"
    by code_simp
  show ?thesis
    using schema_completeness [of raw_row "''length''"] a b c
    by blast
qed

text \<open>
  Claim C5 (normalization idempotence). For every raw row \<open>x\<close>, normalizing the
  normalized record again (lowering its keys and projecting onto the fourteen fields,
  a missing one becoming null) gives the same record.
\<close>

theorem normalize_idempotent: "normalize (normalize x) = normalize x"
  by (simp add: normalize_def values_of_zip_fields length_values_of)

section \<open>The consumer's run\<close>

lemma insert_row_Some:
  "tables s realtime_table = Some t \<Longrightarrow> pg_insert e vs = Some r \<Longrightarrow>
     \<exists>s'. insert_row e vs s = Some s' \<and> rt_rows s' = rt_rows s @ [r]
        \<and> tables s' realtime_table \<noteq> None
        \<and> open_conns s' = open_conns s \<and> attempts s' = attempts s"
  by (simp add: insert_row_def rt_rows_def)

lemma insert_row_effect:
  "insert_row e vs s = Some s' \<Longrightarrow>
     length (rt_rows s') = Suc (length (rt_rows s)) \<and> tables s' realtime_table \<noteq> None
     \<and> open_conns s' = open_conns s \<and> attempts s' = attempts s"
  by (auto simp: insert_row_def rt_rows_def split: option.splits)

lemma drain_insertable:
  "n < 200 \<Longrightarrow> tables s realtime_table \<noteq> None \<Longrightarrow>
   list_all (insertable e) (take (200 - n) q) \<Longrightarrow>
     outcome (drain e q n s) = (if 200 - n \<le> length q then QuotaReached else IdleTimeout)
     \<and> record_count (drain e q n s) = n + min (200 - n) (length q)
     \<and> rest (drain e q n s) = drop (200 - n) q
     \<and> printed (drain e q n s) = (if 200 - n \<le> length q then [Processed200] else [])
     \<and> rt_rows (store (drain e q n s)) = rt_rows s @ List.map_filter (stored e) (take (200 - n) q)
     \<and> open_conns (store (drain e q n s)) = open_conns s"
proof (induction q arbitrary: n s)
  case Nil
  then show ?case by (simp add: List.map_filter_simps)
next
  case (Cons m q)
  from Cons.prems(1) obtain j where j: "200 - n = Suc j" by (cases "200 - n") auto
  from Cons.prems(3) j have ins: "insertable e m" and rest: "list_all (insertable e) (take j q)"
    by simp_all
  from ins obtain its r where m: "m = Payload (JObj its)" and r: "pg_insert e (values_of its) = Some r"
    by (cases "(e, m)" rule: stored.cases) (auto simp: insertable_def)
  from Cons.prems(2) obtain t where t: "tables s realtime_table = Some t" by auto
  from insert_row_Some [OF t r] obtain s' where
    s': "insert_row e (values_of its) s = Some s'" "rt_rows s' = rt_rows s @ [r]"
        "tables s' realtime_table \<noteq> None" "open_conns s' = open_conns s"
    by blast
  have st: "stored e m = Some r" by (simp add: m r)
  show ?case
  proof (cases "j = 0")
    case True
    then have n: "Suc n = 200" using j Cons.prems(1) by arith
    show ?thesis
      using True j n s' st by (simp add: m List.map_filter_simps)
  next
    case False
    then have lt: "Suc n < 200" using j by arith
    have j': "200 - Suc n = j" using j by arith
    have ih: "outcome (drain e q (Suc n) s') = (if j \<le> length q then QuotaReached else IdleTimeout)
     \<and> record_count (drain e q (Suc n) s') = Suc n + min j (length q)
     \<and> rest (drain e q (Suc n) s') = drop j q
     \<and> printed (drain e q (Suc n) s') = (if j \<le> length q then [Processed200] else [])
     \<and> rt_rows (store (drain e q (Suc n) s')) = rt_rows s' @ List.map_filter (stored e) (take j q)
     \<and> open_conns (store (drain e q (Suc n) s')) = open_conns s'"
      using Cons.IH [OF lt s'(3)] rest j' by simp
    have step: "drain e (m # q) n s = drain e q (Suc n) s'"
      using lt s'(1) by (simp add: m)
    show ?thesis
      using ih s'(2,4) st j by (simp add: step List.map_filter_simps)
  qed
qed

lemma ensure_ok:
  "connect_ok e (attempts s) \<Longrightarrow> create_ok e \<Longrightarrow>
     \<exists>s1. ensure_realtime_table_exists e s = (None, s1, [TableEnsured])
        \<and> tables s1 realtime_table \<noteq> None \<and> rt_rows s1 = rt_rows s
        \<and> attempts s1 = Suc (attempts s) \<and> open_conns s1 = open_conns s"
  by (simp add: ensure_realtime_table_exists_def connect_def close_conn_def rt_rows_def
      split: option.splits)

lemma consume_reachable:
  assumes "reachable e s"
  shows "\<exists>s2. consume_realtime_data e q s
           = except_handler ((drain e q 0 s2)\<lparr>printed := [TableEnsured] @ printed (drain e q 0 s2)\<rparr>)
         \<and> tables s2 realtime_table \<noteq> None \<and> rt_rows s2 = rt_rows s
         \<and> open_conns s2 = Suc (open_conns s)"
proof -
  from assms have c1: "connect_ok e (attempts s)" and c2: "connect_ok e (Suc (attempts s))"
    and cr: "create_ok e" and br: "broker_ok e"
    by (simp_all add: reachable_def)
  from ensure_ok [OF c1 cr] obtain s1 where
    s1: "ensure_realtime_table_exists e s = (None, s1, [TableEnsured])"
        "tables s1 realtime_table \<noteq> None" "rt_rows s1 = rt_rows s"
        "attempts s1 = Suc (attempts s)" "open_conns s1 = open_conns s"
    by blast
  let ?s2 = "s1\<lparr>attempts := Suc (attempts s1), open_conns := Suc (open_conns s1)\<rparr>"
  have con: "connect e s1 = (True, ?s2)"
    using c2 s1(4) by (simp add: connect_def)
  have "consume_realtime_data e q s
           = except_handler ((drain e q 0 ?s2)\<lparr>printed := [TableEnsured] @ printed (drain e q 0 ?s2)\<rparr>)"
    by (simp add: consume_realtime_data_def s1(1) br con Let_def)
  moreover have "tables ?s2 realtime_table \<noteq> None" using s1(2) by simp
  moreover have "rt_rows ?s2 = rt_rows s" using s1(3) by (simp add: rt_rows_def)
  moreover have "open_conns ?s2 = Suc (open_conns s)" using s1(5) by simp
  ultimately show ?thesis by blast
qed

text \<open>
  Claim C2 (quota termination), as the code has it. Take a queue with at least 200
  available messages whose first 200 are dicts the database accepts on INSERT, with
  storage and broker answering. One run of the consumer then processes exactly 200
  messages and inserts exactly their 200 rows, in order; it stops there and leaves
  every later message in the queue; it leaves through the \<^verbatim>\<open>break\<close> of the quota,
  printing the line of the 200 processed records.
\<close>

theorem quota_termination:
  assumes "200 \<le> length q" and "list_all (insertable e) (take 200 q)" and "reachable e s"
  shows "outcome (consume_realtime_data e q s) = QuotaReached
       \<and> record_count (consume_realtime_data e q s) = 200
       \<and> rt_rows (store (consume_realtime_data e q s))
           = rt_rows s @ List.map_filter (stored e) (take 200 q)
       \<and> length (rt_rows (store (consume_realtime_data e q s))) = length (rt_rows s) + 200
       \<and> rest (consume_realtime_data e q s) = drop 200 q
       \<and> printed (consume_realtime_data e q s) = [TableEnsured, Processed200]"
proof -
  from consume_reachable [OF assms(3)] obtain s2 where
    s2: "consume_realtime_data e q s
           = except_handler ((drain e q 0 s2)\<lparr>printed := [TableEnsured] @ printed (drain e q 0 s2)\<rparr>)"
        "tables s2 realtime_table \<noteq> None" "rt_rows s2 = rt_rows s"
    by blast
  have d: "outcome (drain e q 0 s2) = QuotaReached"
      "record_count (drain e q 0 s2) = 200"
      "rest (drain e q 0 s2) = drop 200 q"
      "printed (drain e q 0 s2) = [Processed200]"
      "rt_rows (store (drain e q 0 s2)) = rt_rows s2 @ List.map_filter (stored e) (take 200 q)"
    using drain_insertable [of 0 s2 e q] s2(2) assms(1,2) by simp_all
  have len: "length (List.map_filter (stored e) (take 200 q)) = 200"
  proof -
    have "length (List.map_filter f xs) = length xs" if "list_all (\<lambda>x. f x \<noteq> None) xs" for f :: "message \<Rightarrow> json list option" and xs
      using that by (induction xs) (auto simp: List.map_filter_simps)
    then have "length (List.map_filter (stored e) (take 200 q)) = length (take 200 q)"
      using assms(2) by (simp add: insertable_def [abs_def])
    then show ?thesis using assms(1) by simp
  qed
  show ?thesis
    using d len by (simp add: s2(1,3) except_handler_def)
qed


lemma drain_report:
  "printed (drain e q n s) = (if outcome (drain e q n s) = QuotaReached then [Processed200] else [])
   \<and> length (rt_rows (store (drain e q n s))) + n = length (rt_rows s) + record_count (drain e q n s)
   \<and> open_conns (store (drain e q n s)) = open_conns s"
proof (induction e q n s rule: drain.induct)
  case (3 e its q n s)
  show ?case
  proof (cases "insert_row e (values_of its) s")
    case None
    then show ?thesis by simp
  next
    case (Some s')
    note eff = insert_row_effect [OF Some]
    show ?thesis
    proof (cases "200 \<le> Suc n")
      case True
      then show ?thesis using Some eff by simp
    next
      case False
      then show ?thesis using Some eff 3 [OF Some] by simp
    qed
  qed
qed simp_all

lemma ensure_frame:
  "ensure_realtime_table_exists e s = (r, s1, out) \<Longrightarrow> rt_rows s1 = rt_rows s"
  by (auto simp: ensure_realtime_table_exists_def connect_def close_conn_def rt_rows_def
      split: if_splits option.splits)

lemma connect_frame: "connect e s = (b, s1) \<Longrightarrow> rt_rows s1 = rt_rows s"
  by (auto simp: connect_def rt_rows_def split: if_splits)

text \<open>
  Claim C6 (consume outcome reporting), as the code has it. The function returns
  nothing. What a run reports is what it prints: the lines of the table check, then the
  fixed line of the 200 records when the quota ended the run, nothing when the stream
  went idle, and the text of the exception when one ended it. No line carries the number
  of records processed. The rows inserted before the end of the run stay in the table:
  it has grown by \<^verbatim>\<open>record_count\<close> rows.
\<close>

theorem consume_reports_by_printing:
  "printed (consume_realtime_data e q s)
     = snd (snd (ensure_realtime_table_exists e s))
       @ (case outcome (consume_realtime_data e q s) of
            QuotaReached \<Rightarrow> [Processed200]
          | IdleTimeout \<Rightarrow> []
          | Error err \<Rightarrow> [KafkaError err])
   \<and> length (rt_rows (store (consume_realtime_data e q s)))
       = length (rt_rows s) + record_count (consume_realtime_data e q s)"
proof -
  obtain r s1 out where en: "ensure_realtime_table_exists e s = (r, s1, out)"
    by (cases "ensure_realtime_table_exists e s") auto
  note f1 = ensure_frame [OF en]
  show ?thesis
  proof (cases r)
    case (Some err)
    then show ?thesis using en f1 by (simp add: consume_realtime_data_def except_handler_def)
  next
    case None
    show ?thesis
    proof (cases "broker_ok e")
      case False
      then show ?thesis using en None f1
        by (simp add: consume_realtime_data_def except_handler_def)
    next
      case True
      obtain b s2 where con: "connect e s1 = (b, s2)" by (cases "connect e s1") auto
      note f2 = connect_frame [OF con]
      show ?thesis
      proof (cases b)
        case False
        then show ?thesis using en None True con f1 f2
          by (simp add: consume_realtime_data_def except_handler_def)
      next
        case b: True
        have c: "consume_realtime_data e q s
                 = except_handler ((drain e q 0 s2)\<lparr>printed := out @ printed (drain e q 0 s2)\<rparr>)"
          using en None True con b by (simp add: consume_realtime_data_def Let_def)
        from drain_report [of e q 0 s2] show ?thesis
          using f1 f2 en
          by (cases "outcome (drain e q 0 s2)") (simp_all add: c except_handler_def)
      qed
    qed
  qed
qed

text \<open>
  The count is not reported: two runs that fail on an INSERT after 0 and after 1
  processed records print the same lines, and so do two runs that end idle after 0 and
  after 1 records.
\<close>

theorem consume_reports_count_counterexample:
  "printed (consume_realtime_data strict [Payload (JObj bad_row)] empty_db)
     = printed (consume_realtime_data strict [Payload (JObj good_row), Payload (JObj bad_row)] empty_db)
   \<and> record_count (consume_realtime_data strict [Payload (JObj bad_row)] empty_db) = 0
   \<and> record_count (consume_realtime_data strict [Payload (JObj good_row), Payload (JObj bad_row)] empty_db) = 1
   \<and> printed (consume_realtime_data healthy [] empty_db)
     = printed (consume_realtime_data healthy [Payload (JObj good_row)] empty_db)
   \<and> record_count (consume_realtime_data healthy [] empty_db) = 0
   \<and> record_count (consume_realtime_data healthy [Payload (JObj good_row)] empty_db) = 1"
  by code_simp

text \<open>
  Claim C3 (malformed message), as the code has it. The deserializer's exception is
  not handled per message: it leaves the loop and reaches the only handler, which
  prints it and ends the run. For a stream that starts with a valid message followed by
  an undeserializable one, the run stores the row of the first message only, prints the
  error once, counts nothing as an error, and processes no message after the malformed
  one.
\<close>

theorem malformed_message_aborts:
  assumes "reachable e s" and "pg_insert e (values_of r1) = Some row1"
  shows "outcome (consume_realtime_data e (Payload (JObj r1) # Malformed # q) s) = Error DeserializeFailed
       \<and> record_count (consume_realtime_data e (Payload (JObj r1) # Malformed # q) s) = 1
       \<and> rt_rows (store (consume_realtime_data e (Payload (JObj r1) # Malformed # q) s)) = rt_rows s @ [row1]
       \<and> rest (consume_realtime_data e (Payload (JObj r1) # Malformed # q) s) = q
       \<and> printed (consume_realtime_data e (Payload (JObj r1) # Malformed # q) s)
           = [TableEnsured, KafkaError DeserializeFailed]"
proof -
  let ?q = "Payload (JObj r1) # Malformed # q"
  from consume_reachable [OF assms(1)] obtain s2 where
    s2: "consume_realtime_data e ?q s
           = except_handler ((drain e ?q 0 s2)\<lparr>printed := [TableEnsured] @ printed (drain e ?q 0 s2)\<rparr>)"
        "tables s2 realtime_table \<noteq> None" "rt_rows s2 = rt_rows s"
    by blast
  from s2(2) obtain t where t: "tables s2 realtime_table = Some t" by auto
  from insert_row_Some [OF t assms(2)] obtain s' where
    s': "insert_row e (values_of r1) s2 = Some s'" "rt_rows s' = rt_rows s2 @ [row1]"
    by blast
  have "drain e ?q 0 s2
        = \<lparr>outcome = Error DeserializeFailed, record_count = 1, rest = q, store = s', printed = []\<rparr>"
    using s'(1) by simp
  then show ?thesis
    using s'(2) s2(3) by (simp add: s2(1) except_handler_def)
qed

theorem malformed_message_aborts_witness:
  "reachable healthy empty_db \<and> pg_insert healthy (values_of good_row) = Some (values_of good_row)
   \<and> outcome (consume_realtime_data healthy [Payload (JObj good_row), Malformed, Payload (JObj good_row)] empty_db)
       = Error DeserializeFailed
   \<and> rt_rows (store (consume_realtime_data healthy [Payload (JObj good_row), Malformed, Payload (JObj good_row)] empty_db))
       = rt_rows empty_db @ [values_of good_row]"
proof -
  have a: "reachable healthy empty_db" by (simp add: reachable_def healthy_def)
  have b: "pg_insert healthy (values_of good_row) = Some (values_of good_row)"
    by (simp add: healthy_def)
  show ?thesis
    using malformed_message_aborts [OF a b, of "[Payload (JObj good_row)]"] a b by simp
qed

text \<open>
  A valid message, a malformed one and a valid one: one row is stored, not two, and
  the run ends with the error.
\<close>

theorem malformed_resilience_counterexample:
  "length (rt_rows (store (consume_realtime_data healthy
             [Payload (JObj good_row), Malformed, Payload (JObj good_row)] empty_db))) = 1
   \<and> outcome (consume_realtime_data healthy
             [Payload (JObj good_row), Malformed, Payload (JObj good_row)] empty_db)
       = Error DeserializeFailed
   \<and> rest (consume_realtime_data healthy
             [Payload (JObj good_row), Malformed, Payload (JObj good_row)] empty_db)
       = [Payload (JObj good_row)]"
  by code_simp

text \<open>
  Claim C9 (storage connection release). The consumer opens its own connection
  (\<^verbatim>\<open>conn = psycopg2.connect(DATABASE_URL)\<close>, after the one \<^verbatim>\<open>ensure_realtime_table_exists\<close>
  opened and closed) and calls \<^verbatim>\<open>conn.close()\<close> on no path: whenever storage and broker
  answer, whatever the queue holds and however the run ends, one more connection is
  open after the run than before it.
\<close>

theorem consume_leaves_connection_open:
  assumes "reachable e s"
  shows "open_conns (store (consume_realtime_data e q s)) = Suc (open_conns s)"
proof -
  from consume_reachable [OF assms] obtain s2 where
    s2: "consume_realtime_data e q s
           = except_handler ((drain e q 0 s2)\<lparr>printed := [TableEnsured] @ printed (drain e q 0 s2)\<rparr>)"
        "open_conns s2 = Suc (open_conns s)"
    by blast
  have "store (consume_realtime_data e q s) = store (drain e q 0 s2)"
    by (simp add: s2(1) except_handler_def split: outcome.splits)
  then show ?thesis using drain_report [of e q 0 s2] s2(2) by simp
qed

theorem consume_leaves_connection_open_witness:
  "reachable healthy empty_db
   \<and> open_conns empty_db = 0
   \<and> outcome (consume_realtime_data healthy [] empty_db) = IdleTimeout
   \<and> open_conns (store (consume_realtime_data healthy [] empty_db)) = 1"
proof -
  have a: "reachable healthy empty_db" by (simp add: reachable_def healthy_def)
  have b: "outcome (consume_realtime_data healthy [] empty_db) = IdleTimeout" by code_simp
  show ?thesis
    using consume_leaves_connection_open [OF a, of "[]"] a b by (simp add: empty_db_def)
qed

theorem quota_termination_witness:
  "200 \<le> length full_queue \<and> list_all (insertable healthy) (take 200 full_queue)
   \<and> reachable healthy empty_db
   \<and> outcome (consume_realtime_data healthy full_queue empty_db) = QuotaReached
   \<and> record_count (consume_realtime_data healthy full_queue empty_db) = 200
   \<and> length (rt_rows (store (consume_realtime_data healthy full_queue empty_db))) = 200
   \<and> rest (consume_realtime_data healthy full_queue empty_db) = [Payload (JObj raw_row)]
   \<and> printed (consume_realtime_data healthy full_queue empty_db) = [TableEnsured, Processed200]"
proof -
  have a: "200 \<le> length full_queue" by (simp add: full_queue_def)
  have b: "list_all (insertable healthy) (take 200 full_queue)"
    by (simp add: full_queue_def list_all_iff insertable_def healthy_def)
  have c: "reachable healthy empty_db" by (simp add: reachable_def healthy_def)
  have d: "drop 200 full_queue = [Payload (JObj raw_row)]" by (simp add: full_queue_def)
  have e: "rt_rows empty_db = []" by (simp add: rt_rows_def empty_db_def)
  from quota_termination [OF a b c] have
    "outcome (consume_realtime_data healthy full_queue empty_db) = QuotaReached"
    "record_count (consume_realtime_data healthy full_queue empty_db) = 200"
    "length (rt_rows (store (consume_realtime_data healthy full_queue empty_db)))
       = length (rt_rows empty_db) + 200"
    "rest (consume_realtime_data healthy full_queue empty_db) = drop 200 full_queue"
    "printed (consume_realtime_data healthy full_queue empty_db) = [TableEnsured, Processed200]"
    by blast+
  then show ?thesis
    using a b c by (simp add: d e)
qed

text \<open>
  Having 200 available messages is not enough: when one of the first 200 cannot be
  deserialized, the run ends at that message with the error, here after one record,
  and the quota is never reached although more than 200 valid messages are waiting.
\<close>

theorem quota_termination_counterexample:
  "200 \<le> length broken_queue
   \<and> reachable healthy empty_db
   \<and> outcome (consume_realtime_data healthy broken_queue empty_db) = Error DeserializeFailed
   \<and> record_count (consume_realtime_data healthy broken_queue empty_db) = 1
   \<and> length (rt_rows (store (consume_realtime_data healthy broken_queue empty_db))) = 1
   \<and> length (rest (consume_realtime_data healthy broken_queue empty_db)) = 200
   \<and> printed (consume_realtime_data healthy broken_queue empty_db)
       = [TableEnsured, KafkaError DeserializeFailed]"
proof -
  let ?q = "replicate 200 (Payload (JObj good_row))"
  have a: "200 \<le> length broken_queue" by (simp add: broken_queue_def)
  have b: "reachable healthy empty_db" by (simp add: reachable_def healthy_def)
  from consume_reachable [OF b] obtain s2 where
    s2: "consume_realtime_data healthy broken_queue empty_db
           = except_handler ((drain healthy broken_queue 0 s2)
               \<lparr>printed := [TableEnsured] @ printed (drain healthy broken_queue 0 s2)\<rparr>)"
        "tables s2 realtime_table \<noteq> None" "rt_rows s2 = rt_rows empty_db"
    by blast
  from s2(2) obtain t where t: "tables s2 realtime_table = Some t" by auto
  have ins: "pg_insert healthy (values_of good_row) = Some (values_of good_row)"
    by (simp add: healthy_def)
  from insert_row_Some [OF t ins] obtain s' where
    s': "insert_row healthy (values_of good_row) s2 = Some s'"
        "rt_rows s' = rt_rows s2 @ [values_of good_row]"
    by blast
  have d: "drain healthy broken_queue 0 s2
        = \<lparr>outcome = Error DeserializeFailed, record_count = 1, rest = ?q, store = s',
           printed = []\<rparr>"
    using s'(1) by (simp add: broken_queue_def)
  have e: "rt_rows empty_db = []" by (simp add: rt_rows_def empty_db_def)
  show ?thesis
    using a b s'(2) by (simp add: s2(1,3) d e except_handler_def)
qed

section \<open>The producer's run\<close>

lemma send_rows_eq:
  "send_rows e df t =
     (if list_all (serializes e) df then None else Some SerializeFailed,
      t @ map (\<lambda>r. Payload (JObj r)) (takeWhile (serializes e) df))"
  by (induction df arbitrary: t) simp_all

text \<open>
  Claim C7 (publish outcome reporting), as the code has it. The function returns
  nothing. A failed download prints the failure line and sends nothing. Otherwise the
  rows are handed to the producer in order up to the first one the serializer refuses;
  the rows before it stay sent. What is printed is one fixed success line when every
  row was sent, and otherwise one failure line with the exception; neither carries the
  number of messages sent.
\<close>

theorem produce_reports_by_printing:
  "produce_realtime_data e fetched t =
     (case fetched of
        Inl err \<Rightarrow> (t, [FailedFetchSend err])
      | Inr df \<Rightarrow>
          if broker_ok e
          then (t @ map (\<lambda>r. Payload (JObj r)) (takeWhile (serializes e) df),
                if list_all (serializes e) df then [SentToKafka]
                else [FailedFetchSend SerializeFailed])
          else (t, [FailedFetchSend BrokerUnreachable]))"
  by (simp add: produce_realtime_data_def send_rows_eq split: sum.splits)

text \<open>
  The count is not reported: a snapshot that fails on its first row and one that
  fails on its second print the same line after sending 0 and 1 messages, and so do
  two successful snapshots of 0 and 1 rows.
\<close>

theorem produce_reports_count_counterexample:
  "snd (produce_realtime_data strict (Inr [bad_row]) [])
     = snd (produce_realtime_data strict (Inr [good_row, bad_row]) [])
   \<and> length (fst (produce_realtime_data strict (Inr [bad_row]) [])) = 0
   \<and> length (fst (produce_realtime_data strict (Inr [good_row, bad_row]) [])) = 1
   \<and> snd (produce_realtime_data healthy (Inr []) [])
     = snd (produce_realtime_data healthy (Inr [good_row]) [])
   \<and> length (fst (produce_realtime_data healthy (Inr []) [])) = 0
   \<and> length (fst (produce_realtime_data healthy (Inr [good_row]) [])) = 1"
  by code_simp

lemma map_filter_stored:
  "List.map_filter (stored e) (take n (map (\<lambda>r. Payload (JObj r)) df))
     = List.map_filter (\<lambda>r. pg_insert e (map snd (normalize r))) (take n df)"
  by (simp add: List.map_filter_def take_map filter_map comp_def map_snd_normalize)

text \<open>
  Claim C1 (normalization before publication), as the code has it. The producer sends
  every fetched row as it is, with the keys and the casing of the source; nothing is
  lowered or projected before publication. The normalization happens once, in the
  consumer: when broker and storage answer and the database accepts the rows, the rows
  stored for a snapshot are the values of the normalized records of its first 200
  rows, in order.
\<close>

theorem publisher_sends_raw_rows:
  assumes "broker_ok e" and "list_all (serializes e) df" and "reachable e s"
    and "list_all (insertable e) (take 200 (map (\<lambda>r. Payload (JObj r)) df))"
  shows "fst (produce_realtime_data e (Inr df) []) = map (\<lambda>r. Payload (JObj r)) df
       \<and> rt_rows (store (consume_realtime_data e (fst (produce_realtime_data e (Inr df) [])) s))
           = rt_rows s @ List.map_filter (\<lambda>r. pg_insert e (map snd (normalize r))) (take 200 df)"
proof -
  let ?q = "map (\<lambda>r. Payload (JObj r)) df"
  have tw: "takeWhile (serializes e) df = df"
    using assms(2) by (simp add: list_all_iff takeWhile_eq_all_conv)
  have p: "fst (produce_realtime_data e (Inr df) []) = ?q"
    using assms(1) by (simp add: produce_realtime_data_def send_rows_eq tw)
  from consume_reachable [OF assms(3)] obtain s2 where
    s2: "consume_realtime_data e ?q s
           = except_handler ((drain e ?q 0 s2)\<lparr>printed := [TableEnsured] @ printed (drain e ?q 0 s2)\<rparr>)"
        "tables s2 realtime_table \<noteq> None" "rt_rows s2 = rt_rows s"
    by blast
  have "store (consume_realtime_data e ?q s) = store (drain e ?q 0 s2)"
    by (simp add: s2(1) except_handler_def split: outcome.splits)
  moreover have "rt_rows (store (drain e ?q 0 s2)) = rt_rows s2 @ List.map_filter (stored e) (take 200 ?q)"
    using drain_insertable [of 0 s2 e ?q] s2(2) assms(4) by simp
  ultimately show ?thesis
    by (simp only: p s2(3) map_filter_stored)
qed

theorem publisher_sends_raw_rows_witness:
  "broker_ok healthy \<and> list_all (serializes healthy) [raw_row] \<and> reachable healthy empty_db
   \<and> list_all (insertable healthy) (take 200 (map (\<lambda>r. Payload (JObj r)) [raw_row]))
   \<and> fst (produce_realtime_data healthy (Inr [raw_row]) []) = [Payload (JObj raw_row)]
   \<and> rt_rows (store (consume_realtime_data healthy (fst (produce_realtime_data healthy (Inr [raw_row]) [])) empty_db))
       = [map snd (normalize raw_row)]"
proof -
  have a: "broker_ok healthy" by (simp add: healthy_def)
  have b: "list_all (serializes healthy) [raw_row]" by (simp add: healthy_def)
  have c: "reachable healthy empty_db" by (simp add: reachable_def healthy_def)
  have d: "list_all (insertable healthy) (take 200 (map (\<lambda>r. Payload (JObj r)) [raw_row]))"
    by (simp add: insertable_def healthy_def)
  have e: "rt_rows empty_db = []" by (simp add: rt_rows_def empty_db_def)
  have f: "pg_insert healthy = Some" by (simp add: healthy_def fun_eq_iff)
  note t = publisher_sends_raw_rows [OF a b c d]
  have p1: "fst (produce_realtime_data healthy (Inr [raw_row]) []) = [Payload (JObj raw_row)]"
    using t by simp
  have "rt_rows empty_db
          @ List.map_filter (\<lambda>r. pg_insert healthy (map snd (normalize r))) (take 200 [raw_row])
        = [map snd (normalize raw_row)]"
    by (simp add: e f List.map_filter_simps)
  then have p2: "rt_rows (store (consume_realtime_data healthy
                    (fst (produce_realtime_data healthy (Inr [raw_row]) [])) empty_db))
       = [map snd (normalize raw_row)]"
    by (rule trans [OF t [THEN conjunct2]])
  show ?thesis
    using a b c d p1 p2 by blast
qed

text \<open>
  A fetched row with an upper-case key and a key outside the schema is published
  unchanged: the message has those two keys, not the fourteen fields.
\<close>

theorem publisher_normalizes_counterexample:
  "fst (produce_realtime_data healthy (Inr [raw_row]) []) = [Payload (JObj raw_row)]
   \<and> raw_row \<noteq> normalize raw_row
   \<and> map fst raw_row = [''SEGMENTID'', ''_traffic'']
   \<and> length (normalize raw_row) = 14"
  by code_simp

section \<open>The dashboard's frame\<close>

lemma dropna_replace:
  "dropna (map replace_sentinel raw)
     = filter (\<lambda>r. current_speed r \<noteq> None \<and> current_speed r \<noteq> Some (- 1)) raw"
  by (induction raw) (auto simp: dropna_def replace_sentinel_def)

lemma current_speed_set_congested: "current_speed (set_congested r) = current_speed r"
  by (simp add: set_congested_def)

text \<open>
  Claim C8 (sentinel handling). The dashboard is the only reader of the realtime
  table. For every table state, \<^verbatim>\<open>replace(-1, pd.NA)\<close> turns a speed of -1 into a missing
  value and leaves every other speed alone, and the frame all tabs work on consists of
  the rows whose speed is present and not -1: no row of it has the speed -1. In the
  scenario of three readings with the speeds 15, -1 and 25, published and consumed
  through the pipeline, the table holds 3 rows; the second has a missing speed after
  the replacement, and the frame keeps the speeds 15 and 25.
\<close>

theorem sentinel_handling:
  "(read_sql s = Some raw \<longrightarrow>
      run_dashboard s
        = Some (map set_congested
                  (filter (\<lambda>r. current_speed r \<noteq> None \<and> current_speed r \<noteq> Some (- 1)) raw))
      \<and> map current_speed (map replace_sentinel raw)
        = map (\<lambda>r. if current_speed r = Some (- 1) then None else current_speed r) raw)
   \<and> (run_dashboard s = Some df \<longrightarrow>
        list_all (\<lambda>r. current_speed r \<noteq> Some (- 1) \<and> current_speed r \<noteq> None) df)
   \<and> length (rt_rows scenario_db) = 3
   \<and> map_option (map current_speed) (read_sql scenario_db) = Some [Some 15, Some (- 1), Some 25]
   \<and> map_option (map (current_speed \<circ> replace_sentinel)) (read_sql scenario_db)
       = Some [Some 15, None, Some 25]
   \<and> map_option (map current_speed) (run_dashboard scenario_db) = Some [Some 15, Some 25]"
proof -
  have g1: "run_dashboard s
        = Some (map set_congested
                  (filter (\<lambda>r. current_speed r \<noteq> None \<and> current_speed r \<noteq> Some (- 1)) raw))"
    if "read_sql s = Some raw"
    using that by (simp add: run_dashboard_def dropna_replace)
  have g2: "map current_speed (map replace_sentinel raw)
        = map (\<lambda>r. if current_speed r = Some (- 1) then None else current_speed r) raw"
    by (simp add: replace_sentinel_def)
  have g3: "list_all (\<lambda>r. current_speed r \<noteq> Some (- 1) \<and> current_speed r \<noteq> None) df"
    if "run_dashboard s = Some df"
  proof -
    from that obtain raw' where "read_sql s = Some raw'"
      and "df = map set_congested (dropna (map replace_sentinel raw'))"
      by (auto simp: run_dashboard_def split: option.splits)
    then show ?thesis
      by (auto simp: dropna_replace list_all_iff current_speed_set_congested)
  qed
  have c1: "length (rt_rows scenario_db) = 3" by code_simp
  have c2: "map_option (map current_speed) (read_sql scenario_db) = Some [Some 15, Some (- 1), Some 25]"
    by code_simp
  have c3: "map_option (map (current_speed \<circ> replace_sentinel)) (read_sql scenario_db)
       = Some [Some 15, None, Some 25]"
    by code_simp
  have c4: "map_option (map current_speed) (run_dashboard scenario_db) = Some [Some 15, Some 25]"
    by code_simp
  show ?thesis
    using g1 g2 g3 c1 c2 c3 c4 by blast
qed

theorem sentinel_handling_witness:
  "read_sql sentinel_db = Some sentinel_raw
   \<and> run_dashboard sentinel_db = Some sentinel_frame
   \<and> list_all (\<lambda>r. current_speed r \<noteq> Some (- 1) \<and> current_speed r \<noteq> None) sentinel_frame
   \<and> map current_speed (map replace_sentinel sentinel_raw) = [Some 15, None, Some 25]
   \<and> map current_speed sentinel_frame = [Some 15, Some 25]"
proof -
  have a: "read_sql sentinel_db = Some sentinel_raw" by code_simp
  have b: "run_dashboard sentinel_db = Some sentinel_frame" by code_simp
  have c: "map current_speed (map replace_sentinel sentinel_raw) = [Some 15, None, Some 25]"
    by code_simp
  have d: "map current_speed sentinel_frame = [Some 15, Some 25]"
    by (simp add: sentinel_frame_def)
  show ?thesis
    using sentinel_handling [of sentinel_db sentinel_raw sentinel_frame] a b c d by blast
qed

section \<open>The batch load\<close>

lemma load_files_frame:
  "n \<notin> set (map fst fs) \<Longrightarrow> tables (snd (load_files e fs s)) n = tables s n"
  by (induction e fs s rule: load_files.induct) (auto split: option.splits)

lemma load_files_ok:
  "list_all (load_ok e) fs \<Longrightarrow> distinct (map fst fs) \<Longrightarrow>
     fst (load_files e fs s) = None
     \<and> map (tables (snd (load_files e fs s))) (map fst fs) = map (read_csv e) (map snd fs)"
proof (induction e fs s rule: load_files.induct)
  case (1 e s)
  show ?case by simp
next
  case (2 e t p fs s)
  from "2.prems"(1) have hd: "load_ok e (t, p)" and rest: "list_all (load_ok e) fs"
    by simp_all
  from hd obtain df where df: "read_csv e p = Some df" and w: "to_sql_ok e t"
    by (auto simp: load_ok_def)
  from "2.prems"(2) have nt: "t \<notin> set (map fst fs)" and dist: "distinct (map fst fs)" by simp_all
  let ?s1 = "s\<lparr>tables := (tables s)(t \<mapsto> df)\<rparr>"
  have step: "load_files e ((t, p) # fs) s = load_files e fs ?s1"
    using df w by simp
  have ih: "fst (load_files e fs ?s1) = None
     \<and> map (tables (snd (load_files e fs ?s1))) (map fst fs) = map (read_csv e) (map snd fs)"
    using "2.IH" [OF df w rest dist] .
  have "tables (snd (load_files e fs ?s1)) t = tables ?s1 t"
    using load_files_frame [OF nt] .
  then have "tables (snd (load_files e fs ?s1)) t = read_csv e p"
    using df by simp
  then show ?case unfolding step using ih by simp
qed

lemma files_names: "distinct (map fst files) \<and> realtime_table \<notin> set (map fst files)"
  by (simp add: files_def realtime_table_def)

text \<open>
  Claim C10 (batch load). \<^verbatim>\<open>load_csv_to_postgres\<close> never changes the realtime table.
  When the four files can be read and written, the run completes and each of the four
  tables is exactly the frame parsed from its file, whatever it held before; the same
  holds for the start of \<^verbatim>\<open>main\<close>, which runs the load right after the table check
  and before the consumer is started.
\<close>

theorem batch_load_replaces:
  "tables (fst (snd (load_csv_to_postgres e s))) realtime_table = tables s realtime_table
   \<and> (list_all (load_ok e) files \<longrightarrow>
        fst (load_csv_to_postgres e s) = None
        \<and> snd (snd (load_csv_to_postgres e s)) = [BatchLoaded]
        \<and> map (tables (fst (snd (load_csv_to_postgres e s)))) (map fst files)
            = map (read_csv e) (map snd files))
   \<and> (list_all (load_ok e) files \<and> connect_ok e (attempts s) \<and> create_ok e \<longrightarrow>
        fst (main_setup e s) = None
        \<and> map (tables (fst (snd (main_setup e s)))) (map fst files)
            = map (read_csv e) (map snd files)
        \<and> rt_rows (fst (snd (main_setup e s))) = rt_rows s)"
proof -
  have st: "fst (snd (load_csv_to_postgres e s)) = snd (load_files e files s)" for s
    by (cases "load_files e files s") (auto simp: load_csv_to_postgres_def split: option.splits)
  have fr: "tables (fst (snd (load_csv_to_postgres e s))) realtime_table = tables s realtime_table" for s
    using files_names load_files_frame [of realtime_table files e s] by (simp add: st)
  have ok: "fst (load_csv_to_postgres e s) = None
        \<and> snd (snd (load_csv_to_postgres e s)) = [BatchLoaded]
        \<and> map (tables (fst (snd (load_csv_to_postgres e s)))) (map fst files)
            = map (read_csv e) (map snd files)" if a: "list_all (load_ok e) files" for s
  proof -
    from load_files_ok [OF a, of s] files_names
    have l: "fst (load_files e files s) = None"
      "map (tables (snd (load_files e files s))) (map fst files) = map (read_csv e) (map snd files)"
      by simp_all
    from l(1) have "fst (load_csv_to_postgres e s) = None"
        "snd (snd (load_csv_to_postgres e s)) = [BatchLoaded]"
      by (cases "load_files e files s"; simp add: load_csv_to_postgres_def)+
    then show ?thesis using l(2) by (simp add: st)
  qed
  have mn: "fst (main_setup e s) = None
        \<and> map (tables (fst (snd (main_setup e s)))) (map fst files)
            = map (read_csv e) (map snd files)
        \<and> rt_rows (fst (snd (main_setup e s))) = rt_rows s"
    if a: "list_all (load_ok e) files" and c: "connect_ok e (attempts s)" and cr: "create_ok e"
  proof -
    from ensure_ok [OF c cr] obtain s1 where
      s1: "ensure_realtime_table_exists e s = (None, s1, [TableEnsured])" "rt_rows s1 = rt_rows s"
      by blast
    have m: "main_setup e s =
        (fst (load_csv_to_postgres e s1), fst (snd (load_csv_to_postgres e s1)),
         [TableEnsured] @ snd (snd (load_csv_to_postgres e s1)))"
      by (simp add: main_setup_def s1(1) split: prod.splits)
    have "rt_rows (fst (snd (load_csv_to_postgres e s1))) = rt_rows s1"
      using fr [of s1] by (simp add: rt_rows_def)
    then show ?thesis using ok [OF a, of s1] s1(2) by (simp add: m)
  qed
  show ?thesis using fr ok mn by blast
qed

theorem batch_load_replaces_witness:
  "list_all (load_ok healthy) files \<and> connect_ok healthy (attempts old_db) \<and> create_ok healthy
   \<and> tables old_db ''historical_traffic'' = Some \<lparr>columns = [''street''], trows = [[JStr ''Old'']]\<rparr>
   \<and> map (tables (fst (snd (load_csv_to_postgres healthy old_db)))) (map fst files)
       = map (read_csv healthy) (map snd files)
   \<and> tables (fst (snd (load_csv_to_postgres healthy old_db))) ''historical_traffic''
       = Some \<lparr>columns = [''data/historical_traffic.csv''], trows = []\<rparr>
   \<and> tables (fst (snd (load_csv_to_postgres healthy old_db))) realtime_table
       = tables old_db realtime_table
   \<and> rt_rows (fst (snd (main_setup healthy old_db))) = rt_rows old_db
   \<and> rt_rows old_db = [values_of good_row]"
proof -
  have a: "list_all (load_ok healthy) files" by (simp add: load_ok_def healthy_def files_def)
  have b: "connect_ok healthy (attempts old_db)" "create_ok healthy" by (simp_all add: healthy_def)
  have c: "tables old_db ''historical_traffic'' = Some \<lparr>columns = [''street''], trows = [[JStr ''Old'']]\<rparr>"
    by (simp add: old_db_def)
  have d: "rt_rows old_db = [values_of good_row]"
    by (simp add: old_db_def rt_rows_def realtime_table_def)
  have e: "map fst files ! 0 = ''historical_traffic''" "map snd files ! 0 = ''data/historical_traffic.csv''"
    "read_csv healthy ''data/historical_traffic.csv'' = Some \<lparr>columns = [''data/historical_traffic.csv''], trows = []\<rparr>"
    by (simp_all add: files_def healthy_def)
  note t = batch_load_replaces [of healthy old_db]
  from t a have m: "map (tables (fst (snd (load_csv_to_postgres healthy old_db)))) (map fst files)
       = map (read_csv healthy) (map snd files)" by blast
  have "map (tables (fst (snd (load_csv_to_postgres healthy old_db)))) (map fst files) ! 0
       = map (read_csv healthy) (map snd files) ! 0" by (simp only: m)
  then have h: "tables (fst (snd (load_csv_to_postgres healthy old_db))) ''historical_traffic''
       = Some \<lparr>columns = [''data/historical_traffic.csv''], trows = []\<rparr>"
    by (simp add: files_def healthy_def)
  show ?thesis
    using t a b c d h m by blast
qed

end
